theory Spec2Isabelle
  imports Main "HOL-Library.Sublist"
begin

section \<open>Cache / dedup store (storage/database.py, class SQLiteStorage)\<close>

text \<open>
  The two tables of \<^verbatim>\<open>_setup_cache_table\<close>. Both have \<^verbatim>\<open>url TEXT PRIMARY KEY\<close>,
  so a table is a list of rows in insertion order with at most one row per url.
  Timestamps are seconds on the database clock (\<^verbatim>\<open>datetime('now')\<close>); the clock value
  of each statement is an argument of the operation that runs it.
\<close>

record processed_row =
  p_url :: string
  processed_at :: int

record cache_row =
  c_url :: string
  c_content :: string
  scraped_at :: int
  expiry :: int

record sqlite_storage =
  processed_urls :: "processed_row list"
  cache :: "cache_row list"

definition empty_storage :: sqlite_storage where
  "empty_storage = \<lparr>processed_urls = [], cache = []\<rparr>"

text \<open>\<^verbatim>\<open>SELECT 1 FROM processed_urls WHERE url = ?\<close>, then \<^verbatim>\<open>fetchone() is not None\<close>.\<close>

definition is_processed :: "sqlite_storage \<Rightarrow> string \<Rightarrow> bool" where
  "is_processed db url = (filter (\<lambda>r. p_url r = url) (processed_urls db) \<noteq> [])"

text \<open>
  \<^verbatim>\<open>INSERT OR IGNORE INTO processed_urls (url) VALUES (?)\<close>: a row whose primary key
  is already present is skipped without an error; otherwise the row is appended with
  \<^verbatim>\<open>processed_at\<close> defaulting to the current timestamp.
\<close>

definition mark_processed :: "sqlite_storage \<Rightarrow> string \<Rightarrow> int \<Rightarrow> sqlite_storage" where
  "mark_processed db url now =
     (if filter (\<lambda>r. p_url r = url) (processed_urls db) \<noteq> [] then db
      else db\<lparr>processed_urls :=
                 processed_urls db @ [\<lparr>p_url = url, processed_at = now\<rparr>]\<rparr>)"

text \<open>
  \<^verbatim>\<open>cache_response(url, content, expiry_hours=24)\<close>:
  \<^verbatim>\<open>INSERT OR REPLACE INTO cache (url, content, expiry) VALUES (?, ?, datetime('now', '+N hours'))\<close>.
  A row with the same url is deleted first; the new row is appended. The hours are a
  natural number: the default is 24 and the only caller in the repository
  (\<^verbatim>\<open>StorageManager.cache_response\<close>) uses the default.
\<close>

definition cache_response :: "sqlite_storage \<Rightarrow> string \<Rightarrow> string \<Rightarrow> nat \<Rightarrow> int \<Rightarrow> sqlite_storage" where
  "cache_response db url body expiry_hours now =
     db\<lparr>cache := filter (\<lambda>r. c_url r \<noteq> url) (cache db)
                    @ [\<lparr>c_url = url, c_content = body, scraped_at = now,
                        expiry = now + 3600 * int expiry_hours\<rparr>]\<rparr>"

text \<open>
  \<^verbatim>\<open>SELECT content FROM cache WHERE url = ? AND expiry > datetime('now')\<close>,
  then \<^verbatim>\<open>row['content'] if row else None\<close>.
\<close>

definition get_cached_response :: "sqlite_storage \<Rightarrow> string \<Rightarrow> int \<Rightarrow> string option" where
  "get_cached_response db url now =
     (case filter (\<lambda>r. c_url r = url \<and> expiry r > now) (cache db) of
        [] \<Rightarrow> None
      | row # _ \<Rightarrow> Some (c_content row))"

section \<open>The outside world\<close>

text \<open>
  Every network exchange is an interaction with an environment the program does not
  control. The environment is an oracle indexed by the number of interactions made so
  far (\<open>clock\<close>): any sequence of answers, successes and failures alike, is some oracle.
  An HTTP exchange gives a response (status code and text) or raises (timeout,
  connection error); the FlareSolverr service answers with a JSON object; a browser
  session ends with a page source or raises on the way.
\<close>

datatype reply = Response (status_code: nat) (response_text: string) | Exception

datatype flare_reply =
    FlareJson (status: string) (solution_response: "string option")
  | FlareException

record env =
  http_reply :: "nat \<Rightarrow> reply"
  flaresolverr_reply :: "nat \<Rightarrow> flare_reply"
  browser_page :: "nat \<Rightarrow> string option"

datatype py_error =
    IndexError | UnboundLocalError | RetryError | ValueError
  | CancelledError | KeyboardInterrupt


text \<open>Python truthiness of an \<^verbatim>\<open>Optional[str]\<close>: \<^verbatim>\<open>None\<close> and \<^verbatim>\<open>""\<close> are false.\<close>

fun truthy :: "string option \<Rightarrow> bool" where
  "truthy None = False"
| "truthy (Some s) = (s \<noteq> [])"

section \<open>Proxy pool (utils/antidetect.py, class ProxyRotator)\<close>

record proxy_rotator =
  proxies :: "string list"
  working_proxies :: "string list"
  failed_proxies :: "string set"
  current_index :: nat

text \<open>\<^verbatim>\<open>ProxyRotator.__init__\<close>.\<close>

definition new_rotator :: "string list \<Rightarrow> proxy_rotator" where
  "new_rotator ps =
     \<lparr>proxies = ps, working_proxies = [], failed_proxies = {}, current_index = 0\<rparr>"

text \<open>
  The inner \<^verbatim>\<open>test_proxy\<close>: the proxy itself when the probe answers 200, \<^verbatim>\<open>None\<close> on any
  other status and on any exception.
\<close>

definition test_proxy :: "env \<Rightarrow> nat \<Rightarrow> string \<Rightarrow> string option" where
  "test_proxy e t proxy =
     (case http_reply e t of
        Response code body \<Rightarrow> if code = 200 then Some proxy else None
      | Exception \<Rightarrow> None)"

text \<open>
  \<^verbatim>\<open>asyncio.gather\<close> returns the results in the order of the tasks, that is, of
  \<^verbatim>\<open>self.proxies\<close>; the probe of the \<open>i\<close>-th candidate is interaction \<open>t + i\<close>.
\<close>

fun gather_tests :: "env \<Rightarrow> nat \<Rightarrow> string list \<Rightarrow> string option list" where
  "gather_tests e t [] = []"
| "gather_tests e t (p # ps) = test_proxy e t p # gather_tests e (Suc t) ps"

text \<open>\<^verbatim>\<open>[p for p in results if p]\<close>.\<close>

fun keep_truthy :: "string option list \<Rightarrow> string list" where
  "keep_truthy [] = []"
| "keep_truthy (None # rs) = keep_truthy rs"
| "keep_truthy (Some p # rs) = (if p \<noteq> [] then p # keep_truthy rs else keep_truthy rs)"

text \<open>\<^verbatim>\<open>test_proxies\<close>: one health-check pass over every configured candidate.\<close>

definition test_proxies :: "env \<Rightarrow> proxy_rotator \<Rightarrow> nat \<Rightarrow> proxy_rotator \<times> nat" where
  "test_proxies e r t =
     (r\<lparr>working_proxies := keep_truthy (gather_tests e t (proxies r))\<rparr>,
      t + length (proxies r))"

text \<open>
  \<^verbatim>\<open>get_proxy\<close>. The index read \<^verbatim>\<open>self.working_proxies[self.current_index]\<close> raises
  IndexError when the index is past the end, which \<^verbatim>\<open>mark_failed\<close> can bring about.
\<close>

definition get_proxy ::
  "env \<Rightarrow> proxy_rotator \<Rightarrow> nat \<Rightarrow> (py_error + string option) \<times> proxy_rotator \<times> nat" where
  "get_proxy e r t =
     (let (r1, t1) = (if working_proxies r = [] then test_proxies e r t else (r, t))
      in if working_proxies r1 = [] then (Inr None, r1, t1)
         else if current_index r1 < length (working_proxies r1)
         then (Inr (Some (working_proxies r1 ! current_index r1)),
               r1\<lparr>current_index := (current_index r1 + 1) mod length (working_proxies r1)\<rparr>,
               t1)
         else (Inl IndexError, r1, t1))"

text \<open>\<^verbatim>\<open>mark_failed\<close>: \<^verbatim>\<open>list.remove\<close> deletes the first occurrence only.\<close>

definition mark_failed :: "proxy_rotator \<Rightarrow> string \<Rightarrow> proxy_rotator" where
  "mark_failed r proxy =
     (let r1 = r\<lparr>failed_proxies := insert proxy (failed_proxies r)\<rparr>
      in if proxy \<in> set (working_proxies r1)
         then r1\<lparr>working_proxies := remove1 proxy (working_proxies r1)\<rparr>
         else r1)"

section \<open>Fetch orchestrator (scrapers/base_scraper.py, class BaseScraper)\<close>

datatype strategy = TlsClient | Cloudscraper | Browser | Httpx

text \<open>
  What the scraper does to the outside world, in order: a strategy is entered, or a
  request leaves through the proxy shown (\<open>None\<close>: no proxy).
\<close>

datatype event =
    Started strategy
  | TlsRequest string string "string option"
  | CloudscraperGet string "string option"
  | FlareSolverrPost string "string option"
  | BrowserSession string "string option"
  | HttpxRequest string string "string option"

text \<open>
  The fields of \<^verbatim>\<open>BaseScraper\<close> that \<^verbatim>\<open>fetch\<close> reads or writes.
  \<open>tls_session_proxies\<close> is \<^verbatim>\<open>self.tls_client.session.proxies\<close>: the session is created
  once in \<^verbatim>\<open>__init__\<close> and lives as long as the scraper; both entries of the dict
  are always the same address, so one address stands for it. \<open>clock\<close> counts the
  interactions with the environment and \<open>trace\<close> lists the events so far.
\<close>

record scraper =
  use_browser :: bool
  proxy_rotator :: "proxy_rotator option"
  tls_session_proxies :: "string option"
  session_cache :: "string \<rightharpoonup> string"
  failed_urls :: "string set"
  success_count :: nat
  fail_count :: nat
  clock :: nat
  trace :: "event list"

text \<open>\<^verbatim>\<open>BaseScraper.__init__\<close> with the proxies \<^verbatim>\<open>_load_proxies\<close> found.\<close>

definition new_scraper :: "bool \<Rightarrow> string list \<Rightarrow> scraper" where
  "new_scraper browser ps =
     \<lparr>use_browser = browser,
      proxy_rotator = (if ps \<noteq> [] then Some (new_rotator ps) else None),
      tls_session_proxies = None, session_cache = Map.empty, failed_urls = {},
      success_count = 0, fail_count = 0, clock = 0, trace = []\<rparr>"

definition emit :: "event \<Rightarrow> scraper \<Rightarrow> scraper" where
  "emit ev st = st\<lparr>trace := trace st @ [ev]\<rparr>"

text \<open>One exchange with the environment: the event is recorded and the clock advances.\<close>

definition exchange :: "event \<Rightarrow> scraper \<Rightarrow> scraper" where
  "exchange ev st = st\<lparr>clock := Suc (clock st), trace := trace st @ [ev]\<rparr>"

text \<open>\<^verbatim>\<open>await self.proxy_rotator.get_proxy() if self.proxy_rotator else None\<close>.\<close>

definition acquire_proxy :: "env \<Rightarrow> scraper \<Rightarrow> (py_error + string option) \<times> scraper" where
  "acquire_proxy e st =
     (case proxy_rotator st of
        None \<Rightarrow> (Inr None, st)
      | Some r \<Rightarrow>
          (case get_proxy e r (clock st) of
             (res, r1, t1) \<Rightarrow> (res, st\<lparr>proxy_rotator := Some r1, clock := t1\<rparr>)))"

text \<open>The proxy a request is configured with: \<^verbatim>\<open>if proxy: ...\<close> skips a falsy one.\<close>

definition via :: "string option \<Rightarrow> string option" where
  "via proxy = (if truthy proxy then proxy else None)"

text \<open>
  The handler of \<^verbatim>\<open>_fetch_tls_client\<close>:
  \<^verbatim>\<open>if proxy and self.proxy_rotator: self.proxy_rotator.mark_failed(proxy)\<close>.
\<close>

definition tls_except :: "string option \<Rightarrow> scraper \<Rightarrow> scraper" where
  "tls_except proxy st =
     (case (proxy, proxy_rotator st) of
        (Some p, Some r) \<Rightarrow>
          if p \<noteq> [] then st\<lparr>proxy_rotator := Some (mark_failed r p)\<rparr> else st
      | _ \<Rightarrow> st)"

text \<open>
  The loop of \<^verbatim>\<open>_fetch_tls_client\<close> with \<open>n\<close> attempts left. The local \<^verbatim>\<open>proxy\<close> is
  assigned inside the \<^verbatim>\<open>try\<close> and read by the handler: \<open>pv\<close> is \<open>None\<close> while it is
  unbound and keeps the value of the previous attempt afterwards. When \<^verbatim>\<open>get_proxy\<close>
  raises in the first attempt the handler reads an unbound local, and that error leaves
  the function. \<^verbatim>\<open>url.split('/')[2]\<close> raises IndexError on a url with fewer than two
  slashes. Statuses other than 200 and 403 fall to the next attempt with no handler run.
\<close>

fun tls_attempts ::
  "env \<Rightarrow> string \<Rightarrow> string \<Rightarrow> nat \<Rightarrow> string option option \<Rightarrow> scraper
     \<Rightarrow> (py_error + string option) \<times> scraper" where
  "tls_attempts e url method 0 pv st = (Inr None, st)"
| "tls_attempts e url method (Suc n) pv st =
     (case acquire_proxy e st of
        (Inl err, st1) \<Rightarrow>
          (case pv of
             None \<Rightarrow> (Inl UnboundLocalError, st1)
           | Some stale \<Rightarrow> tls_attempts e url method n pv (tls_except stale st1))
      | (Inr proxy, st1) \<Rightarrow>
          (let st2 = (if truthy proxy then st1\<lparr>tls_session_proxies := proxy\<rparr> else st1)
           in if count_list url (CHR ''/'') < 2
              then tls_attempts e url method n (Some proxy) (tls_except proxy st2)
              else
                (let st3 = exchange (TlsRequest url method (tls_session_proxies st2)) st2
                 in case http_reply e (clock st2) of
                      Exception \<Rightarrow>
                        tls_attempts e url method n (Some proxy) (tls_except proxy st3)
                    | Response code body \<Rightarrow>
                        if code = 200
                        then (Inr (Some body), st3\<lparr>success_count := success_count st3 + 1\<rparr>)
                        else if code = 403 then (Inr None, st3)
                        else tls_attempts e url method n (Some proxy) st3)))"

definition fetch_tls_client ::
  "env \<Rightarrow> scraper \<Rightarrow> string \<Rightarrow> string \<Rightarrow> (py_error + string option) \<times> scraper" where
  "fetch_tls_client e st url method =
     tls_attempts e url method 5 None (emit (Started TlsClient) st)"

text \<open>
  \<^verbatim>\<open>CloudflareBypasser._use_flaresolverr\<close> (scrapers/captcha_solver.py): the solution's
  response when the service says \<^verbatim>\<open>"ok"\<close>; every exception, a missing key included, is
  caught and gives \<^verbatim>\<open>None\<close>.
\<close>

definition use_flaresolverr ::
  "env \<Rightarrow> scraper \<Rightarrow> string \<Rightarrow> string option \<Rightarrow> string option \<times> scraper" where
  "use_flaresolverr e st url proxy =
     (let st1 = exchange (FlareSolverrPost url (via proxy)) st
      in case flaresolverr_reply e (clock st) of
           FlareException \<Rightarrow> (None, st1)
         | FlareJson stat sol \<Rightarrow> if stat = ''ok'' then (sol, st1) else (None, st1))"

text \<open>
  \<^verbatim>\<open>CloudflareBypasser.bypass_cloudflare\<close>: the result dict is represented by its
  \<^verbatim>\<open>'content'\<close> entry, the only one the scraper reads.
\<close>

definition bypass_cloudflare ::
  "env \<Rightarrow> scraper \<Rightarrow> string \<Rightarrow> string option \<Rightarrow> string option \<times> scraper" where
  "bypass_cloudflare e st url proxy =
     (let st1 = exchange (CloudscraperGet url (via proxy)) st
      in case http_reply e (clock st) of
           Response code body \<Rightarrow>
             if code = 200 then (Some body, st1) else use_flaresolverr e st1 url proxy
         | Exception \<Rightarrow> use_flaresolverr e st1 url proxy)"

text \<open>\<^verbatim>\<open>_fetch_cloudscraper\<close>: any exception is caught; a result dict is always truthy.\<close>

definition fetch_cloudscraper :: "env \<Rightarrow> scraper \<Rightarrow> string \<Rightarrow> string option \<times> scraper" where
  "fetch_cloudscraper e st0 url =
     (let st = emit (Started Cloudscraper) st0
      in case acquire_proxy e st of
           (Inl err, st1) \<Rightarrow> (None, st1)
         | (Inr proxy, st1) \<Rightarrow>
             (case bypass_cloudflare e st1 url proxy of
                (Some body, st2) \<Rightarrow> (Some body, st2\<lparr>success_count := success_count st2 + 1\<rparr>)
              | (None, st2) \<Rightarrow> (None, st2)))"

text \<open>
  \<^verbatim>\<open>_fetch_browser\<close>: the whole session (create, navigate, pace, solve a captcha, read
  \<^verbatim>\<open>page_source\<close>, quit) is one interaction that ends with the page source or with an
  exception; the handler swallows the exception and the failure of its own
  \<^verbatim>\<open>driver.quit()\<close>.
\<close>

definition fetch_browser :: "env \<Rightarrow> scraper \<Rightarrow> string \<Rightarrow> string option \<times> scraper" where
  "fetch_browser e st0 url =
     (let st = emit (Started Browser) st0
      in case acquire_proxy e st of
           (Inl err, st1) \<Rightarrow> (None, st1)
         | (Inr proxy, st1) \<Rightarrow>
             (let st2 = exchange (BrowserSession url (via proxy)) st1
              in case browser_page e (clock st1) of
                   None \<Rightarrow> (None, st2)
                 | Some page \<Rightarrow> (Some page, st2\<lparr>success_count := success_count st2 + 1\<rparr>)))"

text \<open>
  \<^verbatim>\<open>_fetch_httpx\<close> under \<^verbatim>\<open>@retry(stop=stop_after_attempt(3), wait=wait_exponential(...))\<close>:
  the body runs again after any exception, its own \<^verbatim>\<open>raise httpx.HTTPError\<close> on a
  status other than 200 included; when the last attempt has failed the decorator
  raises RetryError (\<^verbatim>\<open>reraise\<close> is left at its default). \<open>n\<close> is the number of attempts
  left.
\<close>

fun httpx_attempts ::
  "env \<Rightarrow> string \<Rightarrow> string \<Rightarrow> nat \<Rightarrow> scraper \<Rightarrow> (py_error + string) \<times> scraper" where
  "httpx_attempts e url method 0 st = (Inl RetryError, st)"
| "httpx_attempts e url method (Suc n) st =
     (case acquire_proxy e st of
        (Inl err, st1) \<Rightarrow> httpx_attempts e url method n st1
      | (Inr proxy, st1) \<Rightarrow>
          (let st2 = exchange (HttpxRequest url method (via proxy)) st1
           in case http_reply e (clock st1) of
                Exception \<Rightarrow> httpx_attempts e url method n st2
              | Response code body \<Rightarrow>
                  if code = 200
                  then (Inr body, st2\<lparr>success_count := success_count st2 + 1\<rparr>)
                  else httpx_attempts e url method n st2))"

definition fetch_httpx ::
  "env \<Rightarrow> scraper \<Rightarrow> string \<Rightarrow> string \<Rightarrow> (py_error + string) \<times> scraper" where
  "fetch_httpx e st url method = httpx_attempts e url method 3 (emit (Started Httpx) st)"

text \<open>
  \<^verbatim>\<open>hashlib.md5(f"{url}:{method}".encode()).hexdigest()\<close>. The digest function is
  the library's and is a parameter here.
\<close>

definition cache_key :: "(string \<Rightarrow> string) \<Rightarrow> string \<Rightarrow> string \<Rightarrow> string" where
  "cache_key md5 url method = md5 (url @ '':'' @ method)"

text \<open>\<^verbatim>\<open>self.session_cache[cache_key] = content; return content\<close>.\<close>

definition remember :: "string \<Rightarrow> string \<Rightarrow> scraper \<Rightarrow> (py_error + string option) \<times> scraper" where
  "remember key body st = (Inr (Some body), st\<lparr>session_cache := (session_cache st)(key \<mapsto> body)\<rparr>)"

text \<open>Method 4 and the end of \<^verbatim>\<open>fetch\<close>.\<close>

definition fetch_from_httpx ::
  "env \<Rightarrow> string \<Rightarrow> scraper \<Rightarrow> string \<Rightarrow> string \<Rightarrow> (py_error + string option) \<times> scraper" where
  "fetch_from_httpx e key st url method =
     (case fetch_httpx e st url method of
        (Inl err, st1) \<Rightarrow> (Inl err, st1)
      | (Inr body, st1) \<Rightarrow>
          if body \<noteq> [] then remember key body st1
          else (Inr None, st1\<lparr>failed_urls := insert url (failed_urls st1)\<rparr>))"

text \<open>Method 3, only with \<^verbatim>\<open>use_browser\<close>, and what follows it.\<close>

definition fetch_from_browser ::
  "env \<Rightarrow> string \<Rightarrow> scraper \<Rightarrow> string \<Rightarrow> string \<Rightarrow> (py_error + string option) \<times> scraper" where
  "fetch_from_browser e key st url method =
     (if use_browser st
      then (case fetch_browser e st url of
              (content, st1) \<Rightarrow>
                if truthy content then remember key (the content) st1
                else fetch_from_httpx e key st1 url method)
      else fetch_from_httpx e key st url method)"

text \<open>Method 2 and what follows it.\<close>

definition fetch_from_cloudscraper ::
  "env \<Rightarrow> string \<Rightarrow> scraper \<Rightarrow> string \<Rightarrow> string \<Rightarrow> (py_error + string option) \<times> scraper" where
  "fetch_from_cloudscraper e key st url method =
     (case fetch_cloudscraper e st url of
        (content, st1) \<Rightarrow>
          if truthy content then remember key (the content) st1
          else fetch_from_browser e key st1 url method)"

text \<open>
  \<^verbatim>\<open>fetch\<close>: the cache check, then the cascade. \<open>Inl\<close> is an exception that leaves
  \<^verbatim>\<open>fetch\<close>, \<open>Inr None\<close> the return of \<^verbatim>\<open>None\<close>.
\<close>

definition fetch ::
  "(string \<Rightarrow> string) \<Rightarrow> env \<Rightarrow> scraper \<Rightarrow> string \<Rightarrow> string
     \<Rightarrow> (py_error + string option) \<times> scraper" where
  "fetch md5 e st url method =
     (let key = cache_key md5 url method
      in case session_cache st key of
           Some cached \<Rightarrow> (Inr (Some cached), st)
         | None \<Rightarrow>
             (case fetch_tls_client e st url method of
                (Inl err, st1) \<Rightarrow> (Inl err, st1)
              | (Inr content, st1) \<Rightarrow>
                  if truthy content then remember key (the content) st1
                  else fetch_from_cloudscraper e key st1 url method))"

subsection \<open>Calls that overlap\<close>

text \<open>
  \<^verbatim>\<open>fetch\<close> is a coroutine. Between its cache check and its stores it awaits, and at
  an await other calls on the same scraper run (\<^verbatim>\<open>batch_scrape\<close> starts them together).
  The rest of a call that has missed the cache, from strategy 1 on:
\<close>

definition fetch_from_tls_client ::
  "env \<Rightarrow> string \<Rightarrow> scraper \<Rightarrow> string \<Rightarrow> string \<Rightarrow> (py_error + string option) \<times> scraper" where
  "fetch_from_tls_client e key st url method =
     (case fetch_tls_client e st url method of
        (Inl err, st1) \<Rightarrow> (Inl err, st1)
      | (Inr content, st1) \<Rightarrow>
          if truthy content then remember key (the content) st1
          else fetch_from_cloudscraper e key st1 url method)"

text \<open>
  The rest of a call that is suspended in \<^verbatim>\<open>await client.post(...)\<close> of
  \<^verbatim>\<open>_use_flaresolverr\<close>, from the moment the post returns: \<open>t\<close> is the clock value at
  which the request was sent, so the answer is the oracle's at \<open>t\<close>; \<open>st\<close> is the scraper
  as the other calls have left it in the meantime. The lines run are the end of
  \<^verbatim>\<open>_use_flaresolverr\<close>, the end of \<^verbatim>\<open>_fetch_cloudscraper\<close>, and \<^verbatim>\<open>fetch\<close> from line 64.
\<close>

definition resume_flaresolverr ::
  "env \<Rightarrow> string \<Rightarrow> nat \<Rightarrow> scraper \<Rightarrow> string \<Rightarrow> string \<Rightarrow> (py_error + string option) \<times> scraper" where
  "resume_flaresolverr e key t st url method =
     (case (case flaresolverr_reply e t of
              FlareException \<Rightarrow> None
            | FlareJson stat sol \<Rightarrow> if stat = ''ok'' then sol else None) of
        None \<Rightarrow> fetch_from_browser e key st url method
      | Some body \<Rightarrow>
          (let st1 = st\<lparr>success_count := success_count st + 1\<rparr>
           in if body \<noteq> [] then remember key body st1
              else fetch_from_browser e key st1 url method))"

text \<open>
  What can happen on one scraper, one after the other: a whole call of \<^verbatim>\<open>fetch\<close> with
  nothing in between; a call that missed the cache earlier and was suspended going on
  from the strategy it is in to its return; a call suspended in the FlareSolverr post
  going on from the answer to its return. A call suspended inside a strategy is resumed
  at the start of that strategy: no strategy reads or writes the session cache, so for
  the cache the two are the same.
\<close>

datatype action =
    Call string string
  | Resume strategy string string
  | FlareSolverrReturns nat string string

fun perform :: "(string \<Rightarrow> string) \<Rightarrow> env \<Rightarrow> action \<Rightarrow> scraper \<Rightarrow> scraper" where
  "perform md5 e (Call url method) st = snd (fetch md5 e st url method)"
| "perform md5 e (Resume TlsClient url method) st =
     snd (fetch_from_tls_client e (cache_key md5 url method) st url method)"
| "perform md5 e (Resume Cloudscraper url method) st =
     snd (fetch_from_cloudscraper e (cache_key md5 url method) st url method)"
| "perform md5 e (Resume Browser url method) st =
     snd (fetch_from_browser e (cache_key md5 url method) st url method)"
| "perform md5 e (Resume Httpx url method) st =
     snd (fetch_from_httpx e (cache_key md5 url method) st url method)"
| "perform md5 e (FlareSolverrReturns t url method) st =
     snd (resume_flaresolverr e (cache_key md5 url method) t st url method)"

text \<open>The cache key an action may store under without having looked at the cache first.\<close>

fun in_flight_key :: "(string \<Rightarrow> string) \<Rightarrow> action \<Rightarrow> string option" where
  "in_flight_key md5 (Call url method) = None"
| "in_flight_key md5 (Resume s url method) = Some (cache_key md5 url method)"
| "in_flight_key md5 (FlareSolverrReturns t url method) = Some (cache_key md5 url method)"

fun schedule :: "(string \<Rightarrow> string) \<Rightarrow> env \<Rightarrow> scraper \<Rightarrow> action list \<Rightarrow> scraper" where
  "schedule md5 e st [] = st"
| "schedule md5 e st (a # acts) = schedule md5 e (perform md5 e a st) acts"

section \<open>Batch runner (\<^verbatim>\<open>BaseScraper.batch_scrape\<close>)\<close>










section \<open>Reasoning blocks in model output (agents/llm_calls.py, \<^verbatim>\<open>fw_basic_call\<close>)\<close>

text \<open>\<^verbatim>\<open>str.find\<close>: the lowest index at which \<open>sub\<close> starts, or \<open>-1\<close>.\<close>

fun py_find :: "string \<Rightarrow> string \<Rightarrow> int" where
  "py_find [] sub = (if sub = [] then 0 else - 1)"
| "py_find (c # cs) sub =
     (if prefix sub (c # cs) then 0
      else if py_find cs sub < 0 then - 1 else py_find cs sub + 1)"

text \<open>\<^verbatim>\<open>sub in s\<close>.\<close>

definition py_in :: "string \<Rightarrow> string \<Rightarrow> bool" where
  "py_in sub s = (py_find s sub \<noteq> - 1)"

text \<open>\<^verbatim>\<open>s[a:b]\<close> and \<^verbatim>\<open>s[a:]\<close> for indices that are not negative, as both are here.\<close>

definition py_slice :: "string \<Rightarrow> int \<Rightarrow> int \<Rightarrow> string" where
  "py_slice s a b = drop (nat a) (take (nat b) s)"

definition py_slice_from :: "string \<Rightarrow> int \<Rightarrow> string" where
  "py_slice_from s a = drop (nat a) s"

text \<open>\<^verbatim>\<open>.lstrip("\n")\<close>.\<close>

definition lstrip_newlines :: "string \<Rightarrow> string" where
  "lstrip_newlines s = dropWhile (\<lambda>c. c = CHR 0x0A) s"

definition think_open :: string where
  "think_open = ''<think>''"

definition think_close :: string where
  "think_close = ''</think>''"

text \<open>
  The non-streaming branch, from the message object to the returned string:
  \<^verbatim>\<open>reasoning_content\<close> is the field of that name (absent, null or empty: falsy),
  \<^verbatim>\<open>content\<close> the text. The slices cannot raise, so the \<^verbatim>\<open>except\<close> is dead.
\<close>

definition fw_basic_call_content :: "string option \<Rightarrow> string \<Rightarrow> string" where
  "fw_basic_call_content reasoning_content content =
     (if \<not> truthy reasoning_content \<and> py_in think_open content \<and> py_in think_close content
      then (let start_idx = py_find content think_open + int (length think_open);
                end_idx = py_find content think_close;
                extracted_reasoning = py_slice content start_idx end_idx;
                visible_content =
                  lstrip_newlines (py_slice_from content (end_idx + int (length think_close)))
            in visible_content)
      else content)"

text \<open>
  The streaming branch after the loop: the chunks of reasoning and of text collected
  from the stream, to the returned string.
\<close>

definition fw_basic_call_stream :: "string list \<Rightarrow> string list \<Rightarrow> string" where
  "fw_basic_call_stream final_reasoning_chunks final_text_chunks =
     (let combined_visible = concat final_text_chunks
      in if final_reasoning_chunks = [] \<and> py_in think_open combined_visible
            \<and> py_in think_close combined_visible
         then (let start_idx = py_find combined_visible think_open + int (length think_open);
                   end_idx = py_find combined_visible think_close;
                   extracted_reasoning = py_slice combined_visible start_idx end_idx
               in lstrip_newlines
                    (py_slice_from combined_visible (end_idx + int (length think_close))))
         else combined_visible)"

section \<open>Concrete environments\<close>

text \<open>Every request is answered with status 500; FlareSolverr is not running.\<close>

definition always_500 :: env where
  "always_500 =
     \<lparr>http_reply = (\<lambda>t. Response 500 ''Internal Server Error''),
      flaresolverr_reply = (\<lambda>t. FlareException),
      browser_page = (\<lambda>t. None)\<rparr>"

text \<open>Every request is answered with status 200.\<close>

definition all_pass :: env where
  "all_pass =
     \<lparr>http_reply = (\<lambda>t. Response 200 ''ok''),
      flaresolverr_reply = (\<lambda>t. FlareException),
      browser_page = (\<lambda>t. None)\<rparr>"

text \<open>The first exchange succeeds (a proxy passes its health check); every later one times out.\<close>

definition flaky_proxy :: env where
  "flaky_proxy =
     \<lparr>http_reply = (\<lambda>t. if t = 0 then Response 200 ''ip'' else Exception),
      flaresolverr_reply = (\<lambda>t. FlareException),
      browser_page = (\<lambda>t. None)\<rparr>"

text \<open>The first request is answered with 403, every later one with 200 and body \<open>Y\<close>.\<close>

definition forbidden_then_ok :: env where
  "forbidden_then_ok =
     \<lparr>http_reply = (\<lambda>t. if t = 0 then Response 403 ''Forbidden'' else Response 200 ''Y''),
      flaresolverr_reply = (\<lambda>t. FlareException),
      browser_page = (\<lambda>t. None)\<rparr>"

text \<open>
  A scraper with the single proxy \<open>p\<close>, after the first attempt of its TLS strategy in
  the environment \<open>flaky_proxy\<close>: \<open>p\<close> passed the health check, the request through it
  timed out.
\<close>

definition after_first_attempt :: scraper where
  "after_first_attempt =
     snd (tls_attempts flaky_proxy ''http://example/x'' ''GET'' 1 None
            (emit (Started TlsClient) (new_scraper False [''p''])))"

text \<open>A digest that returns its input: it never collides.\<close>

definition no_digest :: "string \<Rightarrow> string" where
  "no_digest s = s"

text \<open>
  The first seven requests are answered with 500, the later ones with 200 and
  \<open>body1\<close>; FlareSolverr answers every post with \<open>body2\<close>.
\<close>

definition overlap_env :: env where
  "overlap_env =
     \<lparr>http_reply = (\<lambda>t. if t < 7 then Response 500 ''busy'' else Response 200 ''body1''),
      flaresolverr_reply = (\<lambda>t. FlareJson ''ok'' (Some ''body2'')),
      browser_page = (\<lambda>t. None)\<rparr>"

text \<open>
  A call \<^verbatim>\<open>fetch("http://example/x")\<close> on a fresh scraper in \<open>overlap_env\<close>, at its
  first real suspension: it missed the cache, its TLS attempts and its cloudscraper
  request were answered with 500 (neither awaits anything that yields), and it has sent
  the FlareSolverr post, at clock 6, and awaits the answer.
\<close>

definition suspended_call :: scraper where
  "suspended_call =
     exchange (FlareSolverrPost ''http://example/x'' None)
       (exchange (CloudscraperGet ''http://example/x'' None)
          (emit (Started Cloudscraper)
             (snd (fetch_tls_client overlap_env (new_scraper False [])
                     ''http://example/x'' ''GET''))))"





lemmas cascade_defs =
  fetch_def cache_key_def fetch_tls_client_def emit_def acquire_proxy_def exchange_def
  fetch_from_cloudscraper_def fetch_cloudscraper_def bypass_cloudflare_def
  use_flaresolverr_def via_def fetch_from_browser_def fetch_browser_def
  fetch_from_httpx_def fetch_httpx_def remember_def tls_except_def
  get_proxy_def test_proxies_def test_proxy_def mark_failed_def
  new_scraper_def new_rotator_def Let_def numeral_nat

section \<open>Properties of the dedup store\<close>

text \<open>
  C7. \<^verbatim>\<open>mark_processed\<close> is idempotent: marking a URL again, at any later time and any
  number of times, leaves the processed-URL table exactly as the first call left it, and
  \<^verbatim>\<open>is_processed\<close> is true from the first call on. The operation is total: the
  \<^verbatim>\<open>OR IGNORE\<close> clause turns the primary-key conflict into a skipped insert, so no branch
  of it is an error.
\<close>

theorem mark_processed_idempotent:
  "is_processed (mark_processed db url t1) url
   \<and> mark_processed (mark_processed db url t1) url t2 = mark_processed db url t1
   \<and> is_processed (mark_processed (mark_processed db url t1) url t2) url
   \<and> fold (\<lambda>t d. mark_processed d url t) ts (mark_processed db url t1)
       = mark_processed db url t1"
proof -
  have marked: "is_processed (mark_processed db url t1) url"
    by (simp add: is_processed_def mark_processed_def)
  have again: "mark_processed d url t = d" if "is_processed d url" for d t
    using that by (simp add: is_processed_def mark_processed_def)
  have many: "fold (\<lambda>t d. mark_processed d url t) ts d = d" if "is_processed d url" for d
    using that by (induction ts) (simp_all add: again)
  show ?thesis
    using marked again [OF marked] many [OF marked] by simp
qed

section \<open>What the cascade leaves alone\<close>

text \<open>No strategy touches the session cache; only \<^verbatim>\<open>fetch\<close> itself writes to it.\<close>

lemma acquire_proxy_cache:
  "acquire_proxy e st = (res, st1) \<Longrightarrow> session_cache st1 = session_cache st"
  by (auto simp: acquire_proxy_def split: option.splits prod.splits)

lemma tls_except_cache: "session_cache (tls_except proxy st) = session_cache st"
  by (simp add: tls_except_def split: option.splits)

lemma exchange_cache: "session_cache (exchange ev st) = session_cache st"
  by (simp add: exchange_def)

lemma emit_cache: "session_cache (emit ev st) = session_cache st"
  by (simp add: emit_def)

lemma tls_attempts_cache:
  "tls_attempts e url method n pv st = (res, st') \<Longrightarrow> session_cache st' = session_cache st"
proof (induction n arbitrary: pv st)
  case 0
  then show ?case by simp
next
  case (Suc n)
  obtain r st1 where acq: "acquire_proxy e st = (r, st1)" by (cases "acquire_proxy e st")
  note c1 = acquire_proxy_cache [OF acq]
  show ?case
  proof (cases r)
    case (Inl err)
    with Suc.prems acq c1 show ?thesis
      by (auto split: option.splits dest!: Suc.IH simp: tls_except_cache)
  next
    case (Inr proxy)
    with Suc.prems acq c1 show ?thesis
      by (auto simp: Let_def tls_except_cache exchange_cache
               split: if_splits reply.splits dest!: Suc.IH)
  qed
qed

lemma fetch_tls_client_cache:
  "fetch_tls_client e st url method = (res, st') \<Longrightarrow> session_cache st' = session_cache st"
  by (auto simp: fetch_tls_client_def emit_cache dest!: tls_attempts_cache)

lemma use_flaresolverr_cache:
  "use_flaresolverr e st url proxy = (res, st') \<Longrightarrow> session_cache st' = session_cache st"
  by (auto simp: use_flaresolverr_def Let_def exchange_cache split: flare_reply.splits if_splits)

lemma bypass_cloudflare_cache:
  "bypass_cloudflare e st url proxy = (res, st') \<Longrightarrow> session_cache st' = session_cache st"
  by (auto simp: bypass_cloudflare_def Let_def exchange_cache
           split: reply.splits if_splits dest!: use_flaresolverr_cache)

lemma fetch_cloudscraper_cache:
  "fetch_cloudscraper e st url = (res, st') \<Longrightarrow> session_cache st' = session_cache st"
  by (auto simp: fetch_cloudscraper_def Let_def emit_cache
           split: prod.splits sum.splits option.splits
           dest!: bypass_cloudflare_cache acquire_proxy_cache)

lemma fetch_browser_cache:
  "fetch_browser e st url = (res, st') \<Longrightarrow> session_cache st' = session_cache st"
  by (auto simp: fetch_browser_def Let_def emit_cache exchange_cache
           split: prod.splits sum.splits option.splits
           dest!: acquire_proxy_cache)

lemma httpx_attempts_cache:
  "httpx_attempts e url method n st = (res, st') \<Longrightarrow> session_cache st' = session_cache st"
proof (induction n arbitrary: st)
  case 0
  then show ?case by simp
next
  case (Suc n)
  obtain r st1 where acq: "acquire_proxy e st = (r, st1)" by (cases "acquire_proxy e st")
  note c1 = acquire_proxy_cache [OF acq]
  from Suc.prems acq c1 show ?case
    by (auto simp: Let_def exchange_cache
             split: sum.splits if_splits reply.splits dest!: Suc.IH)
qed

lemma fetch_httpx_cache:
  "fetch_httpx e st url method = (res, st') \<Longrightarrow> session_cache st' = session_cache st"
  by (auto simp: fetch_httpx_def emit_cache dest!: httpx_attempts_cache)

text \<open>What a call of the cascade does to the cache: nothing, or one new binding under its key.\<close>

lemma fetch_from_httpx_cache:
  "fetch_from_httpx e key st url method = (res, st') \<Longrightarrow>
     (session_cache st' = session_cache st \<and> (\<forall>b. res \<noteq> Inr (Some b)))
     \<or> (\<exists>b. res = Inr (Some b) \<and> session_cache st' = (session_cache st)(key \<mapsto> b))"
  by (auto simp: fetch_from_httpx_def remember_def
           split: prod.splits sum.splits if_splits dest!: fetch_httpx_cache)

lemma fetch_from_browser_cache:
  "fetch_from_browser e key st url method = (res, st') \<Longrightarrow>
     (session_cache st' = session_cache st \<and> (\<forall>b. res \<noteq> Inr (Some b)))
     \<or> (\<exists>b. res = Inr (Some b) \<and> session_cache st' = (session_cache st)(key \<mapsto> b))"
  by (auto simp: fetch_from_browser_def remember_def
           split: prod.splits if_splits dest!: fetch_browser_cache fetch_from_httpx_cache)

lemma fetch_from_cloudscraper_cache:
  "fetch_from_cloudscraper e key st url method = (res, st') \<Longrightarrow>
     (session_cache st' = session_cache st \<and> (\<forall>b. res \<noteq> Inr (Some b)))
     \<or> (\<exists>b. res = Inr (Some b) \<and> session_cache st' = (session_cache st)(key \<mapsto> b))"
  by (auto simp: fetch_from_cloudscraper_def remember_def
           split: prod.splits if_splits dest!: fetch_cloudscraper_cache fetch_from_browser_cache)

lemma fetch_miss_cache:
  assumes miss: "session_cache st (cache_key md5 url method) = None"
    and run: "fetch md5 e st url method = (res, st')"
  shows "(session_cache st' = session_cache st \<and> (\<forall>b. res \<noteq> Inr (Some b)))
     \<or> (\<exists>b. res = Inr (Some b)
            \<and> session_cache st' = (session_cache st)(cache_key md5 url method \<mapsto> b))"
  using assms
  by (auto simp: fetch_def Let_def remember_def
           split: prod.splits sum.splits if_splits
           dest!: fetch_tls_client_cache fetch_from_cloudscraper_cache)


lemma fetch_keeps_binding:
  assumes "session_cache st k = Some v"
  shows "session_cache (snd (fetch md5 e st url method)) k = Some v"
proof (cases "session_cache st (cache_key md5 url method)")
  case (Some cached)
  then show ?thesis using assms by (simp add: fetch_def)
next
  case None
  obtain res st' where run: "fetch md5 e st url method = (res, st')"
    by (cases "fetch md5 e st url method")
  from None assms have "k \<noteq> cache_key md5 url method" by auto
  with fetch_miss_cache [OF None run] assms run show ?thesis by auto
qed

lemma fetch_body_is_cached:
  assumes run: "fetch md5 e st url method = (Inr (Some body), st')"
  shows "session_cache st' (cache_key md5 url method) = Some body"
proof (cases "session_cache st (cache_key md5 url method)")
  case (Some cached)
  then show ?thesis using run by (simp add: fetch_def)
next
  case None
  from fetch_miss_cache [OF None run] show ?thesis by auto
qed

text \<open>The trace only grows, and strategy 2 announces itself first.\<close>

lemma acquire_proxy_trace:
  "acquire_proxy e st = (res, st1) \<Longrightarrow> trace st1 = trace st"
  by (auto simp: acquire_proxy_def split: option.splits prod.splits)

lemma tls_except_trace: "trace (tls_except proxy st) = trace st"
  by (simp add: tls_except_def split: option.splits)

lemma exchange_trace: "trace (exchange ev st) = trace st @ [ev]"
  by (simp add: exchange_def)

lemma emit_trace: "trace (emit ev st) = trace st @ [ev]"
  by (simp add: emit_def)

lemma prefix_snoc_trans: "prefix (xs @ [x]) ys \<Longrightarrow> prefix xs ys"
  by (metis append_prefixD)

lemma use_flaresolverr_trace:
  "use_flaresolverr e st url proxy = (res, st') \<Longrightarrow> prefix (trace st) (trace st')"
  by (auto simp: use_flaresolverr_def Let_def exchange_trace split: flare_reply.splits if_splits)

lemma bypass_cloudflare_trace:
  "bypass_cloudflare e st url proxy = (res, st') \<Longrightarrow> prefix (trace st) (trace st')"
  by (auto simp: bypass_cloudflare_def Let_def exchange_trace
           split: reply.splits if_splits
           dest!: use_flaresolverr_trace prefix_snoc_trans)

lemma fetch_cloudscraper_trace:
  assumes "fetch_cloudscraper e st url = (res, st')"
  shows "prefix (trace st @ [Started Cloudscraper]) (trace st')"
proof -
  obtain r st1 where acq: "acquire_proxy e (emit (Started Cloudscraper) st) = (r, st1)"
    by (cases "acquire_proxy e (emit (Started Cloudscraper) st)")
  have t1: "trace st1 = trace st @ [Started Cloudscraper]"
    using acquire_proxy_trace [OF acq] by (simp add: emit_trace)
  show ?thesis
  proof (cases r)
    case (Inl err)
    with assms acq t1 show ?thesis by (simp add: fetch_cloudscraper_def Let_def)
  next
    case (Inr proxy)
    obtain c st2 where byp: "bypass_cloudflare e st1 url proxy = (c, st2)"
      by (cases "bypass_cloudflare e st1 url proxy")
    from bypass_cloudflare_trace [OF byp] t1
    have "prefix (trace st @ [Started Cloudscraper]) (trace st2)" by simp
    with assms acq Inr byp show ?thesis
      by (auto simp: fetch_cloudscraper_def Let_def split: option.splits)
  qed
qed

lemma fetch_browser_trace:
  "fetch_browser e st url = (res, st') \<Longrightarrow> prefix (trace st) (trace st')"
  by (auto simp: fetch_browser_def Let_def emit_trace exchange_trace
           split: prod.splits sum.splits option.splits
           dest!: acquire_proxy_trace)

lemma httpx_attempts_trace:
  "httpx_attempts e url method n st = (res, st') \<Longrightarrow> prefix (trace st) (trace st')"
proof (induction n arbitrary: st)
  case 0
  then show ?case by simp
next
  case (Suc n)
  obtain r st1 where acq: "acquire_proxy e st = (r, st1)" by (cases "acquire_proxy e st")
  note t1 = acquire_proxy_trace [OF acq]
  from Suc.prems acq t1 show ?case
    by (auto simp: Let_def exchange_trace
             split: sum.splits if_splits reply.splits
             dest!: Suc.IH prefix_snoc_trans)
qed

lemma fetch_httpx_trace:
  "fetch_httpx e st url method = (res, st') \<Longrightarrow> prefix (trace st) (trace st')"
  by (auto simp: fetch_httpx_def emit_trace dest!: httpx_attempts_trace prefix_snoc_trans)

lemma fetch_from_httpx_trace:
  "fetch_from_httpx e key st url method = (res, st') \<Longrightarrow> prefix (trace st) (trace st')"
  by (auto simp: fetch_from_httpx_def remember_def
           split: prod.splits sum.splits if_splits dest!: fetch_httpx_trace)

lemma fetch_from_browser_trace:
  "fetch_from_browser e key st url method = (res, st') \<Longrightarrow> prefix (trace st) (trace st')"
  by (auto simp: fetch_from_browser_def remember_def
           split: prod.splits if_splits
           dest!: fetch_browser_trace fetch_from_httpx_trace
           intro: prefix_order.trans)

lemma fetch_from_cloudscraper_trace:
  assumes "fetch_from_cloudscraper e key st url method = (res, st')"
  shows "prefix (trace st @ [Started Cloudscraper]) (trace st')"
proof -
  obtain c st1 where cs: "fetch_cloudscraper e st url = (c, st1)"
    by (cases "fetch_cloudscraper e st url")
  note p1 = fetch_cloudscraper_trace [OF cs]
  show ?thesis
  proof (cases "truthy c")
    case True
    with assms cs p1 show ?thesis
      by (auto simp: fetch_from_cloudscraper_def remember_def)
  next
    case False
    with assms cs have "fetch_from_browser e key st1 url method = (res, st')"
      by (simp add: fetch_from_cloudscraper_def)
    then have "prefix (trace st1) (trace st')" by (rule fetch_from_browser_trace)
    with p1 show ?thesis by (rule prefix_order.trans)
  qed
qed

section \<open>The cascade ends in an exception\<close>

text \<open>
  C1. The claim: \<^verbatim>\<open>fetch\<close> never raises for ordinary network failure; when every
  strategy has failed it adds the url to \<open>failed_urls\<close> and returns \<^verbatim>\<open>None\<close>. The code at
  the input where every request is answered with status 500 (no proxies, no browser):
  the retry decorator of \<^verbatim>\<open>_fetch_httpx\<close> raises RetryError after its third attempt,
  \<^verbatim>\<open>fetch\<close> does not catch it, and the url never reaches \<open>failed_urls\<close>.
\<close>

theorem fetch_raises_after_cascade:
  "fst (fetch (\<lambda>s. s) always_500 (new_scraper False []) ''http://example/x'' ''GET'')
     = Inl RetryError
   \<and> failed_urls (snd (fetch (\<lambda>s. s) always_500 (new_scraper False [])
                          ''http://example/x'' ''GET'')) = {}"
  by (simp add: cascade_defs always_500_def)

section \<open>The session cache\<close>

text \<open>
  C2. When the session cache holds an entry under the key of (url, method), \<^verbatim>\<open>fetch\<close>
  returns the cached body and the scraper is left exactly as it was: no strategy is
  started, no request is sent, the clock of the environment does not move. The session
  cache has no expiry, so every entry is fresh.
\<close>

theorem fetch_cache_hit:
  assumes "session_cache st (cache_key md5 url method) = Some body"
  shows "fetch md5 e st url method = (Inr (Some body), st)"
  using assms by (simp add: fetch_def)

theorem fetch_cache_hit_witness:
  "session_cache ((new_scraper False [])\<lparr>session_cache :=
       [cache_key (\<lambda>s. s) ''http://example/ok'' ''GET'' \<mapsto> ''X'']\<rparr>)
     (cache_key (\<lambda>s. s) ''http://example/ok'' ''GET'') = Some ''X''
   \<and> fetch (\<lambda>s. s) always_500
       ((new_scraper False [])\<lparr>session_cache :=
          [cache_key (\<lambda>s. s) ''http://example/ok'' ''GET'' \<mapsto> ''X'']\<rparr>)
       ''http://example/ok'' ''GET''
     = (Inr (Some ''X''),
        (new_scraper False [])\<lparr>session_cache :=
          [cache_key (\<lambda>s. s) ''http://example/ok'' ''GET'' \<mapsto> ''X'']\<rparr>)"
proof -
  have hit: "session_cache ((new_scraper False [])\<lparr>session_cache :=
       [cache_key (\<lambda>s. s) ''http://example/ok'' ''GET'' \<mapsto> ''X'']\<rparr>)
     (cache_key (\<lambda>s. s) ''http://example/ok'' ''GET'') = Some ''X''"
    by simp
  show ?thesis
    using hit fetch_cache_hit [OF hit, of always_500] by simp
qed

subsection \<open>Calls that overlap\<close>

lemma fetch_from_first_strategy:
  "fetch md5 e st url method =
     (case session_cache st (cache_key md5 url method) of
        Some cached \<Rightarrow> (Inr (Some cached), st)
      | None \<Rightarrow> fetch_from_tls_client e (cache_key md5 url method) st url method)"
  by (simp add: fetch_def fetch_from_tls_client_def Let_def split: option.splits)

text \<open>
  With nothing in between, strategy 2 whose cloudscraper request did not succeed is the
  two requests followed by the resumption.
\<close>

lemma fetch_from_cloudscraper_suspends:
  assumes acq: "acquire_proxy e (emit (Started Cloudscraper) st) = (Inr proxy, st1)"
    and failed: "\<forall>body. http_reply e (clock st1) \<noteq> Response 200 body"
  shows "fetch_from_cloudscraper e key st url method =
     resume_flaresolverr e key (Suc (clock st1))
       (exchange (FlareSolverrPost url (via proxy))
          (exchange (CloudscraperGet url (via proxy)) st1)) url method"
  using assms
  by (auto simp: fetch_from_cloudscraper_def fetch_cloudscraper_def bypass_cloudflare_def
        use_flaresolverr_def resume_flaresolverr_def Let_def exchange_def
        split: reply.splits flare_reply.splits option.splits)

lemma fetch_from_tls_client_cache:
  "fetch_from_tls_client e key st url method = (res, st') \<Longrightarrow>
     (session_cache st' = session_cache st \<and> (\<forall>b. res \<noteq> Inr (Some b)))
     \<or> (\<exists>b. res = Inr (Some b) \<and> session_cache st' = (session_cache st)(key \<mapsto> b))"
  by (auto simp: fetch_from_tls_client_def remember_def
           split: prod.splits sum.splits if_splits
           dest!: fetch_tls_client_cache fetch_from_cloudscraper_cache)

lemma resume_flaresolverr_cache:
  "resume_flaresolverr e key t st url method = (res, st') \<Longrightarrow>
     (session_cache st' = session_cache st \<and> (\<forall>b. res \<noteq> Inr (Some b)))
     \<or> (\<exists>b. res = Inr (Some b) \<and> session_cache st' = (session_cache st)(key \<mapsto> b))"
  by (auto simp: resume_flaresolverr_def remember_def Let_def
           split: option.splits if_splits flare_reply.splits
           dest!: fetch_from_browser_cache)

lemma perform_cache:
  "(\<forall>k v. session_cache st k = Some v \<longrightarrow> session_cache (perform md5 e a st) k = Some v)
   \<or> (\<exists>k b. in_flight_key md5 a = Some k
          \<and> session_cache (perform md5 e a st) = (session_cache st)(k \<mapsto> b))"
proof (cases a)
  case (Call u m)
  then show ?thesis by (simp add: fetch_keeps_binding)
next
  case (Resume s u m)
  let ?key = "cache_key md5 u m"
  show ?thesis
  proof (cases s)
    case TlsClient
    obtain res st' where "fetch_from_tls_client e ?key st u m = (res, st')"
      by (cases "fetch_from_tls_client e ?key st u m")
    with fetch_from_tls_client_cache [OF this] Resume TlsClient show ?thesis by auto
  next
    case Cloudscraper
    obtain res st' where "fetch_from_cloudscraper e ?key st u m = (res, st')"
      by (cases "fetch_from_cloudscraper e ?key st u m")
    with fetch_from_cloudscraper_cache [OF this] Resume Cloudscraper show ?thesis by auto
  next
    case Browser
    obtain res st' where "fetch_from_browser e ?key st u m = (res, st')"
      by (cases "fetch_from_browser e ?key st u m")
    with fetch_from_browser_cache [OF this] Resume Browser show ?thesis by auto
  next
    case Httpx
    obtain res st' where "fetch_from_httpx e ?key st u m = (res, st')"
      by (cases "fetch_from_httpx e ?key st u m")
    with fetch_from_httpx_cache [OF this] Resume Httpx show ?thesis by auto
  qed
next
  case (FlareSolverrReturns t u m)
  let ?key = "cache_key md5 u m"
  obtain res st' where "resume_flaresolverr e ?key t st u m = (res, st')"
    by (cases "resume_flaresolverr e ?key t st u m")
  with resume_flaresolverr_cache [OF this] FlareSolverrReturns show ?thesis by auto
qed

lemma perform_keeps_entry:
  assumes "session_cache st k \<noteq> None"
  shows "session_cache (perform md5 e a st) k \<noteq> None"
  using perform_cache [of st md5 e a] assms by auto

lemma perform_keeps_binding:
  assumes "session_cache st k = Some v" and "in_flight_key md5 a \<noteq> Some k"
  shows "session_cache (perform md5 e a st) k = Some v"
  using perform_cache [of st md5 e a] assms by auto

lemma schedule_keeps_entry:
  "session_cache st k \<noteq> None \<Longrightarrow> session_cache (schedule md5 e st acts) k \<noteq> None"
proof (induction acts arbitrary: st)
  case Nil
  then show ?case by simp
next
  case (Cons a acts)
  have "session_cache (perform md5 e a st) k \<noteq> None"
    by (rule perform_keeps_entry [OF Cons.prems])
  then have "session_cache (schedule md5 e (perform md5 e a st) acts) k \<noteq> None"
    by (rule Cons.IH)
  then show ?case by simp
qed

lemma schedule_keeps_binding:
  "session_cache st k = Some v \<Longrightarrow> \<forall>a \<in> set acts. in_flight_key md5 a \<noteq> Some k
     \<Longrightarrow> session_cache (schedule md5 e st acts) k = Some v"
  by (induction acts arbitrary: st) (simp_all add: perform_keeps_binding)

text \<open>
  C10, as claimed, fails when calls overlap. Call A of \<^verbatim>\<open>fetch("http://example/x")\<close>
  misses the cache and is suspended in the FlareSolverr post (\<open>suspended_call\<close>; run
  alone, A is exactly that state followed by the resumption). Meanwhile call B of the
  same url misses the cache too, gets \<open>body1\<close> from the TLS client, stores and returns
  it. Then the post of A returns, and A stores \<open>body2\<close> over it without looking at the
  cache again. A call that starts after both returns \<open>body2\<close>, not the body B returned.
\<close>

theorem overlapping_fetch_replaces_body:
  "session_cache (new_scraper False []) (cache_key no_digest ''http://example/x'' ''GET'') = None
   \<and> fetch no_digest overlap_env (new_scraper False []) ''http://example/x'' ''GET''
     = resume_flaresolverr overlap_env (cache_key no_digest ''http://example/x'' ''GET'') 6
         suspended_call ''http://example/x'' ''GET''
   \<and> fst (fetch no_digest overlap_env suspended_call ''http://example/x'' ''GET'')
     = Inr (Some ''body1'')
   \<and> fst (fetch no_digest overlap_env
            (schedule no_digest overlap_env
               (snd (fetch no_digest overlap_env suspended_call ''http://example/x'' ''GET''))
               [FlareSolverrReturns 6 ''http://example/x'' ''GET''])
            ''http://example/x'' ''GET'')
     = Inr (Some ''body2'')"
  by (simp add: suspended_call_def resume_flaresolverr_def cascade_defs overlap_env_def no_digest_def)

text \<open>
  C10, amended. Once a \<^verbatim>\<open>fetch\<close> of (url, method) has returned a body, every \<^verbatim>\<open>fetch\<close>
  of the same (url, method) that starts later on the same scraper is answered from the
  session cache, in any environment and with the scraper left untouched, so nothing is
  sent: entries never expire and are never removed, whatever whole calls and resumed
  calls come in between. The body is the same one as long as no call for the same key
  that had already passed its cache check resumes in between; calls that run one after
  the other, and overlapping calls for other keys, leave it alone.
\<close>

theorem cached_body_under_overlap:
  assumes first: "fetch md5 e st url method = (Inr (Some body), st1)"
    and later: "st2 = schedule md5 e st1 acts"
  shows "(\<exists>b. fetch md5 e' st2 url method = (Inr (Some b), st2))
       \<and> ((\<forall>a \<in> set acts. in_flight_key md5 a \<noteq> Some (cache_key md5 url method))
            \<longrightarrow> fetch md5 e' st2 url method = (Inr (Some body), st2))"
proof -
  have stored: "session_cache st1 (cache_key md5 url method) = Some body"
    by (rule fetch_body_is_cached [OF first])
  then have "session_cache st2 (cache_key md5 url method) \<noteq> None"
    unfolding later by (intro schedule_keeps_entry) simp
  then have served: "\<exists>b. fetch md5 e' st2 url method = (Inr (Some b), st2)"
    by (auto simp: fetch_def)
  have same: "fetch md5 e' st2 url method = (Inr (Some body), st2)"
    if "\<forall>a \<in> set acts. in_flight_key md5 a \<noteq> Some (cache_key md5 url method)"
  proof -
    have "session_cache st2 (cache_key md5 url method) = Some body"
      unfolding later by (rule schedule_keeps_binding [OF stored that])
    then show ?thesis by (simp add: fetch_def)
  qed
  show ?thesis using served same by blast
qed

theorem cached_body_under_overlap_witness:
  "fst (fetch no_digest forbidden_then_ok (new_scraper False []) ''http://example/403'' ''GET'')
     = Inr (Some ''Y'')
   \<and> in_flight_key no_digest (Call ''http://example/other'' ''GET'')
       \<noteq> Some (cache_key no_digest ''http://example/403'' ''GET'')
   \<and> in_flight_key no_digest (Resume Httpx ''http://example/late'' ''GET'')
       \<noteq> Some (cache_key no_digest ''http://example/403'' ''GET'')
   \<and> fetch no_digest always_500
       (schedule no_digest forbidden_then_ok
          (snd (fetch no_digest forbidden_then_ok (new_scraper False [])
                  ''http://example/403'' ''GET''))
          [Call ''http://example/other'' ''GET'', Resume Httpx ''http://example/late'' ''GET''])
       ''http://example/403'' ''GET''
     = (Inr (Some ''Y''),
        schedule no_digest forbidden_then_ok
          (snd (fetch no_digest forbidden_then_ok (new_scraper False [])
                  ''http://example/403'' ''GET''))
          [Call ''http://example/other'' ''GET'', Resume Httpx ''http://example/late'' ''GET''])"
proof -
  have body: "fst (fetch no_digest forbidden_then_ok (new_scraper False [])
                     ''http://example/403'' ''GET'') = Inr (Some ''Y'')"
    by (simp add: cascade_defs forbidden_then_ok_def no_digest_def)
  then have first: "fetch no_digest forbidden_then_ok (new_scraper False [])
                      ''http://example/403'' ''GET''
      = (Inr (Some ''Y''),
         snd (fetch no_digest forbidden_then_ok (new_scraper False [])
                ''http://example/403'' ''GET''))"
    by (simp add: prod_eq_iff)
  have whole: "in_flight_key no_digest (Call ''http://example/other'' ''GET'')
       \<noteq> Some (cache_key no_digest ''http://example/403'' ''GET'')"
    by simp
  have resumed: "in_flight_key no_digest (Resume Httpx ''http://example/late'' ''GET'')
       \<noteq> Some (cache_key no_digest ''http://example/403'' ''GET'')"
    by (simp add: cache_key_def no_digest_def)
  have others: "\<forall>a \<in> set [Call ''http://example/other'' ''GET'',
                    Resume Httpx ''http://example/late'' ''GET''].
         in_flight_key no_digest a \<noteq> Some (cache_key no_digest ''http://example/403'' ''GET'')"
    using whole resumed by simp
  note concl = cached_body_under_overlap [OF first refl, of always_500
      "[Call ''http://example/other'' ''GET'', Resume Httpx ''http://example/late'' ''GET'']"]
  have same: "fetch no_digest always_500
       (schedule no_digest forbidden_then_ok
          (snd (fetch no_digest forbidden_then_ok (new_scraper False [])
                  ''http://example/403'' ''GET''))
          [Call ''http://example/other'' ''GET'', Resume Httpx ''http://example/late'' ''GET''])
       ''http://example/403'' ''GET''
     = (Inr (Some ''Y''),
        schedule no_digest forbidden_then_ok
          (snd (fetch no_digest forbidden_then_ok (new_scraper False [])
                  ''http://example/403'' ''GET''))
          [Call ''http://example/other'' ''GET'', Resume Httpx ''http://example/late'' ''GET''])"
    by (rule concl [THEN conjunct2, THEN mp, OF others])
  show ?thesis by (intro conjI body whole resumed same)
qed

section \<open>HTTP 403 in the TLS strategy\<close>

text \<open>
  C3. Take any attempt of the TLS strategy inside a \<^verbatim>\<open>fetch\<close> that missed the cache:
  \<open>Suc n\<close> attempts are left, the proxy was acquired and the url has a host part. If the
  response to this attempt is 403, the strategy returns \<^verbatim>\<open>None\<close> at once: the \<open>n\<close>
  attempts left play no part, that one request is the only exchange, the proxy is not
  marked failed, and there is no backoff anywhere in this strategy. \<^verbatim>\<open>fetch\<close> goes on
  with the cascade from strategy 2, whose start is the next event after the request.
\<close>

theorem tls_403_short_circuits:
  assumes reached: "fetch_tls_client e st0 url method = tls_attempts e url method (Suc n) pv st"
    and acq: "acquire_proxy e st = (Inr proxy, st1)"
    and host: "2 \<le> count_list url (CHR ''/'')"
    and forbidden: "http_reply e (clock st1) = Response 403 body"
    and miss: "session_cache st0 (cache_key md5 url method) = None"
  shows "fst (fetch_tls_client e st0 url method) = Inr None
       \<and> tls_attempts e url method (Suc n) pv st = tls_attempts e url method (Suc 0) pv st
       \<and> clock (snd (fetch_tls_client e st0 url method)) = Suc (clock st1)
       \<and> proxy_rotator (snd (fetch_tls_client e st0 url method)) = proxy_rotator st1
       \<and> fetch md5 e st0 url method
           = fetch_from_cloudscraper e (cache_key md5 url method)
               (snd (fetch_tls_client e st0 url method)) url method
       \<and> prefix (trace st @ [TlsRequest url method (tls_session_proxies
                                 (snd (fetch_tls_client e st0 url method))),
                             Started Cloudscraper])
           (trace (snd (fetch md5 e st0 url method)))"
proof -
  let ?via = "if truthy proxy then proxy else tls_session_proxies st"
  let ?st3 = "exchange (TlsRequest url method ?via)
                (if truthy proxy then st1\<lparr>tls_session_proxies := proxy\<rparr> else st1)"
  have t1: "trace st1 = trace st" by (rule acquire_proxy_trace [OF acq])
  have s1: "tls_session_proxies st1 = tls_session_proxies st"
    using acq by (auto simp: acquire_proxy_def split: option.splits prod.splits)
  have loop: "tls_attempts e url method (Suc k) pv st = (Inr None, ?st3)" for k
    using acq host forbidden s1 by (simp add: Let_def)
  have stop: "fetch_tls_client e st0 url method = (Inr None, ?st3)"
    using reached loop [of n] by simp
  have next_strategy: "fetch md5 e st0 url method
      = fetch_from_cloudscraper e (cache_key md5 url method) ?st3 url method"
    using miss stop by (simp add: fetch_def)
  obtain res st'' where run:
    "fetch_from_cloudscraper e (cache_key md5 url method) ?st3 url method = (res, st'')"
    by (cases "fetch_from_cloudscraper e (cache_key md5 url method) ?st3 url method")
  have tr3: "trace ?st3 = trace st @ [TlsRequest url method ?via]"
    using t1 by (simp add: exchange_def)
  have "prefix (trace ?st3 @ [Started Cloudscraper]) (trace st'')"
    by (rule fetch_from_cloudscraper_trace [OF run])
  then have "prefix (trace st @ [TlsRequest url method ?via, Started Cloudscraper]) (trace st'')"
    unfolding tr3 by simp
  moreover have "snd (fetch md5 e st0 url method) = st''"
    by (simp only: next_strategy run snd_conv)
  ultimately have cont:
    "prefix (trace st @ [TlsRequest url method ?via, Started Cloudscraper])
       (trace (snd (fetch md5 e st0 url method)))"
    by simp
  have via: "tls_session_proxies ?st3 = ?via"
    using s1 by (simp add: exchange_def)
  have clk: "clock ?st3 = Suc (clock st1)"
    by (simp add: exchange_def)
  have rot: "proxy_rotator ?st3 = proxy_rotator st1"
    by (simp add: exchange_def)
  have same: "tls_attempts e url method (Suc n) pv st = tls_attempts e url method (Suc 0) pv st"
    by (simp only: loop)
  show ?thesis
    unfolding stop fst_conv snd_conv via clk rot
    using same next_strategy cont by (simp only: simp_thms)
qed

theorem tls_403_short_circuits_witness:
  "fetch_tls_client forbidden_then_ok (new_scraper False []) ''http://example/403'' ''GET''
     = tls_attempts forbidden_then_ok ''http://example/403'' ''GET'' (Suc 4) None
         (emit (Started TlsClient) (new_scraper False []))
   \<and> acquire_proxy forbidden_then_ok (emit (Started TlsClient) (new_scraper False []))
     = (Inr None, emit (Started TlsClient) (new_scraper False []))
   \<and> 2 \<le> count_list ''http://example/403'' (CHR ''/'')
   \<and> http_reply forbidden_then_ok (clock (emit (Started TlsClient) (new_scraper False [])))
     = Response 403 ''Forbidden''
   \<and> session_cache (new_scraper False [])
       (cache_key (\<lambda>s. s) ''http://example/403'' ''GET'') = None
   \<and> fst (fetch_tls_client forbidden_then_ok (new_scraper False [])
            ''http://example/403'' ''GET'') = Inr None
   \<and> clock (snd (fetch_tls_client forbidden_then_ok (new_scraper False [])
                   ''http://example/403'' ''GET'')) = 1
   \<and> fst (fetch (\<lambda>s. s) forbidden_then_ok (new_scraper False [])
            ''http://example/403'' ''GET'') = Inr (Some ''Y'')
   \<and> trace (snd (fetch (\<lambda>s. s) forbidden_then_ok (new_scraper False [])
                   ''http://example/403'' ''GET''))
     = [Started TlsClient, TlsRequest ''http://example/403'' ''GET'' None,
        Started Cloudscraper, CloudscraperGet ''http://example/403'' None]"
proof -
  have reached: "fetch_tls_client forbidden_then_ok (new_scraper False [])
        ''http://example/403'' ''GET''
      = tls_attempts forbidden_then_ok ''http://example/403'' ''GET'' (Suc 4) None
          (emit (Started TlsClient) (new_scraper False []))"
    by (simp add: fetch_tls_client_def)
  have acq: "acquire_proxy forbidden_then_ok (emit (Started TlsClient) (new_scraper False []))
      = (Inr None, emit (Started TlsClient) (new_scraper False []))"
    by (simp add: acquire_proxy_def emit_def new_scraper_def)
  have host: "2 \<le> count_list ''http://example/403'' (CHR ''/'')" by simp
  have forbidden:
    "http_reply forbidden_then_ok (clock (emit (Started TlsClient) (new_scraper False [])))
      = Response 403 ''Forbidden''"
    by (simp add: forbidden_then_ok_def emit_def new_scraper_def)
  have miss: "session_cache (new_scraper False [])
      (cache_key (\<lambda>s. s) ''http://example/403'' ''GET'') = None"
    by (simp add: new_scraper_def)
  have run: "fst (fetch (\<lambda>s. s) forbidden_then_ok (new_scraper False [])
            ''http://example/403'' ''GET'') = Inr (Some ''Y'')
     \<and> trace (snd (fetch (\<lambda>s. s) forbidden_then_ok (new_scraper False [])
                   ''http://example/403'' ''GET''))
     = [Started TlsClient, TlsRequest ''http://example/403'' ''GET'' None,
        Started Cloudscraper, CloudscraperGet ''http://example/403'' None]"
    by (simp add: cascade_defs forbidden_then_ok_def)
  have clk: "clock (emit (Started TlsClient) (new_scraper False [])) = 0"
    by (simp add: emit_def new_scraper_def)
  note concl = tls_403_short_circuits [OF reached acq host forbidden miss]
  have stops: "fst (fetch_tls_client forbidden_then_ok (new_scraper False [])
            ''http://example/403'' ''GET'') = Inr None"
    by (rule concl [THEN conjunct1])
  have one: "clock (snd (fetch_tls_client forbidden_then_ok (new_scraper False [])
                   ''http://example/403'' ''GET'')) = 1"
    using concl [THEN conjunct2, THEN conjunct2, THEN conjunct1] clk by simp
  show ?thesis
    by (intro conjI reached acq host forbidden miss stops one
          run [THEN conjunct1] run [THEN conjunct2])
qed

section \<open>The proxy pool\<close>

text \<open>
  C5. The claim: an address marked failed is out of the working rotation at once and
  \<^verbatim>\<open>get_proxy\<close> does not return it before the next health-check pass. The code at the
  input where the configured list names the same address twice and both probes pass:
  \<^verbatim>\<open>mark_failed\<close> removes one occurrence, the other stays in the rotation, and the next
  \<^verbatim>\<open>get_proxy\<close> returns the failed address without any health check in between (the
  clock stays at 2).
\<close>

theorem mark_failed_leaves_duplicate:
  "test_proxies all_pass (new_rotator [''p'', ''p'']) 0
     = (\<lparr>proxies = [''p'', ''p''], working_proxies = [''p'', ''p''],
         failed_proxies = {}, current_index = 0\<rparr>, 2)
   \<and> working_proxies (mark_failed (fst (test_proxies all_pass (new_rotator [''p'', ''p'']) 0)) ''p'')
     = [''p'']
   \<and> get_proxy all_pass
        (mark_failed (fst (test_proxies all_pass (new_rotator [''p'', ''p'']) 0)) ''p'') 2
     = (Inr (Some ''p''),
        \<lparr>proxies = [''p'', ''p''], working_proxies = [''p''],
         failed_proxies = {''p''}, current_index = 0\<rparr>, 2)"
  by (simp add: test_proxies_def test_proxy_def new_rotator_def mark_failed_def get_proxy_def
        all_pass_def Let_def)

text \<open>
  With no address twice in the rotation the removal is complete, and a \<^verbatim>\<open>get_proxy\<close>
  that runs no health check returns an address of the rotation.
\<close>

lemma mark_failed_removes_when_distinct:
  assumes "distinct (working_proxies r)"
  shows "proxy \<notin> set (working_proxies (mark_failed r proxy))"
  using assms by (simp add: mark_failed_def Let_def)

lemma get_proxy_from_working:
  assumes "working_proxies r \<noteq> []" and "get_proxy e r t = (Inr (Some p), r', t')"
  shows "p \<in> set (working_proxies r) \<and> t' = t"
  using assms by (auto simp: get_proxy_def Let_def split: if_splits)

text \<open>
  A health-check pass that leaves the working set empty makes \<^verbatim>\<open>get_proxy\<close> return
  \<^verbatim>\<open>None\<close>; it raises nothing.
\<close>

lemma get_proxy_none_after_empty_pass:
  assumes "working_proxies r = []"
    and "working_proxies (fst (test_proxies e r t)) = []"
  shows "get_proxy e r t = (Inr None, fst (test_proxies e r t), t + length (proxies r))"
  using assms by (simp add: get_proxy_def test_proxies_def Let_def)

text \<open>
  C9. The claim: when the working set is empty after a health-check pass, \<^verbatim>\<open>get_proxy\<close>
  returns none and the callers in \<^verbatim>\<open>fetch\<close> go on without a proxy. The code at the
  input of one proxy \<open>p\<close> that passes its first health check and then times out on
  everything: the first TLS attempt sets the session's proxies to \<open>p\<close>, fails and marks
  \<open>p\<close> failed; in the second attempt the health-check pass finds nothing and
  \<^verbatim>\<open>get_proxy\<close> returns \<^verbatim>\<open>None\<close>, as claimed; \<^verbatim>\<open>if proxy:\<close> then skips the assignment,
  the session keeps \<open>p\<close>, and the request of that attempt goes out through \<open>p\<close>.
\<close>

theorem tls_request_through_stale_proxy:
  "proxy_rotator after_first_attempt
     = Some \<lparr>proxies = [''p''], working_proxies = [], failed_proxies = {''p''}, current_index = 0\<rparr>
   \<and> clock after_first_attempt = 2
   \<and> get_proxy flaky_proxy (the (proxy_rotator after_first_attempt)) 2
     = (Inr None,
        \<lparr>proxies = [''p''], working_proxies = [], failed_proxies = {''p''}, current_index = 0\<rparr>, 3)
   \<and> trace (snd (tls_attempts flaky_proxy ''http://example/x'' ''GET'' 1 (Some (Some ''p''))
                     after_first_attempt))
     = [Started TlsClient,
        TlsRequest ''http://example/x'' ''GET'' (Some ''p''),
        TlsRequest ''http://example/x'' ''GET'' (Some ''p'')]
   \<and> take 3 (trace (snd (fetch (\<lambda>s. s) flaky_proxy (new_scraper False [''p''])
                            ''http://example/x'' ''GET'')))
     = [Started TlsClient,
        TlsRequest ''http://example/x'' ''GET'' (Some ''p''),
        TlsRequest ''http://example/x'' ''GET'' (Some ''p'')]"
  by (simp add: after_first_attempt_def cascade_defs flaky_proxy_def)

section \<open>Cache keys\<close>

text \<open>
  C6, as claimed, fails on the durable store: \<^verbatim>\<open>cache_response\<close> and
  \<^verbatim>\<open>get_cached_response\<close> take a url and nothing else, and the table's primary key is
  the url. Caching the body of a GET and then the body of a POST to the same url leaves
  one row, and a lookup returns the POST body whatever the method asked for.
\<close>

theorem durable_cache_ignores_method:
  "get_cached_response
     (cache_response (cache_response empty_storage ''http://example/a'' ''body of GET'' 24 0)
        ''http://example/a'' ''body of POST'' 24 0)
     ''http://example/a'' 1 = Some ''body of POST''
   \<and> length (cache (cache_response
        (cache_response empty_storage ''http://example/a'' ''body of GET'' 24 0)
        ''http://example/a'' ''body of POST'' 24 0)) = 1"
  by (simp add: get_cached_response_def cache_response_def empty_storage_def)

text \<open>
  C6, amended. In the session cache the key is the digest of \<open>url:method\<close>: two
  different methods give different texts to digest, so unless the digest collides on
  those two texts the keys differ, and a \<^verbatim>\<open>fetch\<close> with one method leaves the entry of
  the other method absent if it was absent. The durable store is keyed by the url alone:
  what was cached last under a url is what a lookup of that url returns until it
  expires.
\<close>

theorem cache_keys_by_method:
  assumes differ: "m1 \<noteq> m2"
    and no_collision: "inj_on md5 {url @ '':'' @ m1, url @ '':'' @ m2}"
    and absent: "session_cache st (cache_key md5 url m2) = None"
  shows "cache_key md5 url m1 \<noteq> cache_key md5 url m2
       \<and> session_cache (snd (fetch md5 e st url m1)) (cache_key md5 url m2) = None
       \<and> get_cached_response (cache_response db url body hours now) url t
           = (if t < now + 3600 * int hours then Some body else None)"
proof -
  have texts: "url @ '':'' @ m1 \<noteq> url @ '':'' @ m2" using differ by simp
  have keys: "cache_key md5 url m1 \<noteq> cache_key md5 url m2"
    using texts no_collision by (auto simp: cache_key_def inj_on_def)
  obtain res st' where run: "fetch md5 e st url m1 = (res, st')"
    by (cases "fetch md5 e st url m1")
  have other: "session_cache st' (cache_key md5 url m2) = None"
  proof (cases "session_cache st (cache_key md5 url m1)")
    case (Some cached)
    then show ?thesis using run absent by (simp add: fetch_def)
  next
    case None
    from fetch_miss_cache [OF None run] keys absent show ?thesis by auto
  qed
  have durable: "get_cached_response (cache_response db url body hours now) url t
      = (if t < now + 3600 * int hours then Some body else None)"
    by (simp add: get_cached_response_def cache_response_def)
  show ?thesis using keys other durable by (simp add: run)
qed

theorem cache_keys_by_method_witness:
  "''GET'' \<noteq> ''POST''
   \<and> inj_on (\<lambda>s. s) {''http://example/a'' @ '':'' @ ''GET'', ''http://example/a'' @ '':'' @ ''POST''}
   \<and> session_cache (new_scraper False []) (cache_key (\<lambda>s. s) ''http://example/a'' ''POST'') = None
   \<and> cache_key (\<lambda>s. s) ''http://example/a'' ''GET'' \<noteq> cache_key (\<lambda>s. s) ''http://example/a'' ''POST''
   \<and> session_cache (snd (fetch (\<lambda>s. s) all_pass (new_scraper False []) ''http://example/a'' ''GET''))
       (cache_key (\<lambda>s. s) ''http://example/a'' ''POST'') = None
   \<and> get_cached_response (cache_response empty_storage ''http://example/a'' ''X'' 24 0)
       ''http://example/a'' 5 = Some ''X''"
proof -
  have differ: "''GET'' \<noteq> ''POST''" by simp
  have no_collision:
    "inj_on (\<lambda>s. s) {''http://example/a'' @ '':'' @ ''GET'', ''http://example/a'' @ '':'' @ ''POST''}"
    by simp
  have absent:
    "session_cache (new_scraper False []) (cache_key (\<lambda>s. s) ''http://example/a'' ''POST'') = None"
    by (simp add: new_scraper_def)
  note concl = cache_keys_by_method [OF differ no_collision absent,
      of all_pass empty_storage "''X''" 24 0 5]
  have durable: "get_cached_response (cache_response empty_storage ''http://example/a'' ''X'' 24 0)
       ''http://example/a'' 5 = Some ''X''"
    using concl [THEN conjunct2, THEN conjunct2] by simp
  show ?thesis
    by (intro conjI differ no_collision absent concl [THEN conjunct1]
          concl [THEN conjunct2, THEN conjunct1] durable)
qed

section \<open>The batch runner\<close>













section \<open>Reasoning blocks\<close>

lemma py_find_ge: "- 1 \<le> py_find s sub"
  by (induction s) auto

lemma py_find_found: "0 \<le> py_find (xs @ sub @ rest) sub"
proof (induction xs)
  case Nil
  show ?case
  proof (cases "sub @ rest")
    case Nil
    then show ?thesis by simp
  next
    case (Cons a list)
    have "prefix sub (sub @ rest)" by simp
    with Cons show ?thesis by simp
  qed
next
  case (Cons c xs)
  then show ?case by simp
qed

text \<open>A tag whose first character does not occur again in it cannot overlap itself.\<close>

lemma no_straddle:
  assumes sub: "sub = p # ps" and fresh: "p \<notin> set ps"
    and ne: "ys \<noteq> []" and np: "\<not> prefix sub ys"
  shows "\<not> prefix sub (ys @ sub @ rest)"
proof
  assume pre: "prefix sub (ys @ sub @ rest)"
  have short: "length ys < length sub"
  proof (rule ccontr)
    assume "\<not> length ys < length sub"
    then have "length sub \<le> length ys" by simp
    with pre have "prefix sub ys"
      by (metis prefix_length_prefix prefixI)
    with np show False by contradiction
  qed
  from pre obtain zs where eq: "ys @ sub @ rest = sub @ zs"
    by (auto simp: prefix_def)
  have "(ys @ sub @ rest) ! length ys = p"
    using sub by (simp add: nth_append)
  moreover have "(sub @ zs) ! length ys = sub ! length ys"
    using short by (simp add: nth_append)
  ultimately have "sub ! length ys = p" using eq by simp
  moreover have "0 < length ys" using ne by simp
  ultimately have "p \<in> set ps"
    using short sub by (cases "length ys") (auto)
  with fresh show False by contradiction
qed

lemma py_find_first:
  assumes sub: "sub = p # ps" and fresh: "p \<notin> set ps"
  shows "py_find xs sub < 0 \<Longrightarrow> py_find (xs @ sub @ rest) sub = int (length xs)"
proof (induction xs)
  case Nil
  show ?case using sub by simp
next
  case (Cons c xs)
  from Cons.prems have np: "\<not> prefix sub (c # xs)" and neg: "py_find xs sub < 0"
    by (auto split: if_splits)
  have "\<not> prefix sub ((c # xs) @ sub @ rest)"
    using no_straddle [OF sub fresh _ np] by blast
  then show ?case using Cons.IH [OF neg] by simp
qed

lemma slice_after:
  "py_slice_from (xs @ sub @ rest) (int (length xs) + int (length sub)) = rest"
  by (simp add: py_slice_from_def flip: of_nat_add)

lemma find_close_first:
  assumes "\<not> py_in think_close xs"
  shows "py_find (xs @ think_close @ rest) think_close = int (length xs)"
proof -
  have neg: "py_find xs think_close < 0"
    using assms py_find_ge [of xs think_close] by (simp add: py_in_def)
  show ?thesis
  proof (rule py_find_first [OF _ _ neg])
    show "think_close = CHR ''<'' # ''/think>''" by (simp add: think_close_def)
    show "CHR ''<'' \<notin> set ''/think>''" by simp
  qed
qed

text \<open>The text after the first closing tag, for a text that has the block.\<close>

lemma visible_after_block:
  assumes first: "\<not> py_in think_close (before @ think_open @ reasoning)"
    and content: "content = before @ think_open @ reasoning @ think_close @ payload"
  shows "py_in think_open content \<and> py_in think_close content
       \<and> lstrip_newlines (py_slice_from content
            (py_find content think_close + int (length think_close)))
          = lstrip_newlines payload"
proof -
  let ?xs = "before @ think_open @ reasoning"
  have split: "content = ?xs @ think_close @ payload" using content by simp
  have end_idx: "py_find content think_close = int (length ?xs)"
    unfolding split by (rule find_close_first [OF first])
  have "0 \<le> py_find (before @ think_open @ (reasoning @ think_close @ payload)) think_open"
    by (rule py_find_found)
  then have open_in: "py_in think_open content" by (simp add: py_in_def content)
  have close_in: "py_in think_close content"
    unfolding py_in_def end_idx by simp
  have rest: "py_slice_from content (int (length ?xs) + int (length think_close)) = payload"
    unfolding split by (rule slice_after)
  show ?thesis
    using open_in close_in by (simp only: end_idx rest simp_thms)
qed

text \<open>
  C8, as claimed, fails: when the message carries its reasoning in the separate
  \<^verbatim>\<open>reasoning_content\<close> field, the text is returned as it came, block included. The
  parse is the fallback for a message without that field.
\<close>

theorem think_block_kept_with_reasoning_field:
  "fw_basic_call_content (Some ''step by step'') ''<think>r</think>A'' = ''<think>r</think>A''"
  by (simp add: fw_basic_call_content_def)

text \<open>
  C8, amended. For a response with no separate reasoning (the \<^verbatim>\<open>reasoning_content\<close>
  field falsy, no reasoning chunk in the stream) whose text is some prefix, the opening
  tag, the reasoning, the first closing tag of the text, and a payload: the returned
  string is the payload with its leading newlines stripped, in the non-streaming branch
  and in the streaming branch alike. The prefix, the tags and the reasoning are gone.
\<close>

theorem think_block_stripped:
  assumes nr: "\<not> truthy reasoning_content"
    and first: "\<not> py_in think_close (before @ think_open @ reasoning)"
    and chunks: "concat final_text_chunks
                   = before @ think_open @ reasoning @ think_close @ payload"
  shows "fw_basic_call_content reasoning_content
           (before @ think_open @ reasoning @ think_close @ payload)
           = lstrip_newlines payload
       \<and> fw_basic_call_stream [] final_text_chunks = lstrip_newlines payload"
proof -
  note vis = visible_after_block [OF first refl, of payload]
  have plain: "fw_basic_call_content reasoning_content
      (before @ think_open @ reasoning @ think_close @ payload) = lstrip_newlines payload"
    unfolding fw_basic_call_content_def Let_def
    using nr vis by (simp only: if_True simp_thms)
  have stream: "fw_basic_call_stream [] final_text_chunks = lstrip_newlines payload"
    unfolding fw_basic_call_stream_def Let_def chunks
    using vis by (simp only: if_True simp_thms)
  show ?thesis using plain stream by (rule conjI)
qed

theorem think_block_stripped_witness:
  "\<not> truthy None
   \<and> \<not> py_in think_close ([] @ think_open @ ''plan'')
   \<and> concat [''<think>pl'', ''an</thi'', ''nk>'', [CHR 0x0A, CHR 0x0A], ''A'']
       = [] @ think_open @ ''plan'' @ think_close @ [CHR 0x0A, CHR 0x0A, CHR ''A'']
   \<and> fw_basic_call_content None (''<think>plan</think>'' @ [CHR 0x0A, CHR 0x0A] @ ''A'') = ''A''
   \<and> fw_basic_call_stream [] [''<think>pl'', ''an</thi'', ''nk>'', [CHR 0x0A, CHR 0x0A], ''A'']
       = ''A''"
proof -
  have nr: "\<not> truthy None" by simp
  have first: "\<not> py_in think_close ([] @ think_open @ ''plan'')"
    by (simp add: py_in_def think_close_def think_open_def)
  have chunks: "concat [''<think>pl'', ''an</thi'', ''nk>'', [CHR 0x0A, CHR 0x0A], ''A'']
       = [] @ think_open @ ''plan'' @ think_close @ [CHR 0x0A, CHR 0x0A, CHR ''A'']"
    by (simp add: think_close_def think_open_def)
  note concl = think_block_stripped [OF nr first chunks]
  have whole: "[] @ think_open @ ''plan'' @ think_close @ [CHR 0x0A, CHR 0x0A, CHR ''A'']
      = ''<think>plan</think>'' @ [CHR 0x0A, CHR 0x0A] @ ''A''"
    by (simp add: think_close_def think_open_def)
  have strip: "lstrip_newlines [CHR 0x0A, CHR 0x0A, CHR ''A''] = ''A''"
    by (simp add: lstrip_newlines_def)
  have plain: "fw_basic_call_content None (''<think>plan</think>'' @ [CHR 0x0A, CHR 0x0A] @ ''A'')
      = ''A''"
    using concl [THEN conjunct1] unfolding whole strip .
  have stream: "fw_basic_call_stream []
      [''<think>pl'', ''an</thi'', ''nk>'', [CHR 0x0A, CHR 0x0A], ''A''] = ''A''"
    using concl [THEN conjunct2] unfolding strip .
  show ?thesis
    by (intro conjI nr first chunks plain stream)
qed

end
